theory Spec2Isabelle
  imports Main
begin

section \<open>Tabular data\<close>

text \<open>
  A cell of a table: a missing value (Python's \<open>None\<close>, pandas' \<open>NaN\<close>, Arrow's null),
  an integer, a string, a calendar date, or a Python list of cells.
\<close>

datatype cell = Null | IntV int | StrV string | DateV nat nat nat | ListV "cell list"

text \<open>
  A pandas DataFrame: the column labels in order, and the rows, each a list of cells
  in column order. Row labels (the index) are not part of the model: no operation used
  by the pipeline's functions reads them.
\<close>

record frame =
  columns :: "string list"
  rows :: "cell list list"

definition wf_frame :: "frame \<Rightarrow> bool" where
  "wf_frame df = list_all (\<lambda>r. length r = length (columns df)) (rows df)"

text \<open>The exceptions the modelled library calls raise.\<close>

datatype error =
    KeyError
  | ValueError
  | TableNotFoundError
  | DeltaError
  | OSError
  | HTTPError
  | ConnectionError
  | JSONDecodeError
  | TypeError

text \<open>What the functions print.\<close>

datatype msg =
    WarnNoLists string
  | ColumnsNotFound
  | GenericError
  | UnexpectedFormat
  | RequestFailed

text \<open>The cell of row \<open>r\<close> under label \<open>c\<close>, and the row with that cell replaced.\<close>

definition cell_at :: "string list \<Rightarrow> cell list \<Rightarrow> string \<Rightarrow> cell" where
  "cell_at cols r c = (case map_of (zip cols r) c of Some v \<Rightarrow> v | None \<Rightarrow> Null)"

definition set_cell :: "string list \<Rightarrow> cell list \<Rightarrow> string \<Rightarrow> cell \<Rightarrow> cell list" where
  "set_cell cols r c x = map (\<lambda>(n, v). if n = c then x else v) (zip cols r)"

section \<open>The pandas operations used by \<open>explode_columns\<close>\<close>

text \<open>
  \<open>df[cols]\<close> with a list of labels: raises \<open>KeyError\<close> when a label is missing;
  otherwise the result holds, for each requested label in turn, every column of \<open>df\<close>
  that carries it.
\<close>

definition getitem_list :: "frame \<Rightarrow> string list \<Rightarrow> error + frame" where
  "getitem_list df cols =
     (if \<exists>c \<in> set cols. c \<notin> set (columns df) then Inl KeyError
      else Inr \<lparr>columns = concat (map (\<lambda>c. filter (\<lambda>n. n = c) (columns df)) cols),
                rows = map (\<lambda>r. concat (map (\<lambda>c. map snd (filter (\<lambda>(n, v). n = c)
                                  (zip (columns df) r))) cols)) (rows df)\<rparr>)"

text \<open>\<open>df.copy()\<close>: a new frame with the same content.\<close>

definition copy :: "frame \<Rightarrow> frame" where
  "copy df = df"

fun is_list :: "cell \<Rightarrow> bool" where
  "is_list (ListV xs) = True"
| "is_list _ = False"

text \<open>
  \<open>df[c].apply(lambda x: isinstance(x, list)).all()\<close>: \<open>df[c]\<close> raises \<open>KeyError\<close> for
  a missing label. When the label is carried by several columns, \<open>df[c]\<close> is a frame and
  the lambda is applied to whole columns, none of which is a list, so the test is false.
  Otherwise it holds when every cell of the column is a list (also when there is no row).
\<close>

definition all_lists :: "frame \<Rightarrow> string \<Rightarrow> error + bool" where
  "all_lists df c =
     (if c \<notin> set (columns df) then Inl KeyError
      else Inr (count_list (columns df) c = 1 \<and>
                list_all (\<lambda>r. is_list (cell_at (columns df) r c)) (rows df)))"

text \<open>
  \<open>DataFrame.explode\<close> on one row: a list cell becomes one row per element, in element
  order, the other cells repeated; an empty list becomes a single row whose cell is
  missing (\<open>NaN\<close>); any other cell leaves the row as it is.
\<close>

definition explode_row :: "string list \<Rightarrow> string \<Rightarrow> cell list \<Rightarrow> cell list list" where
  "explode_row cols c r =
     (case cell_at cols r c of
        ListV xs \<Rightarrow> (if xs = [] then [set_cell cols r c Null]
                     else map (\<lambda>x. set_cell cols r c x) xs)
      | _ \<Rightarrow> [r])"

text \<open>
  \<open>df.explode(c)\<close>: \<open>ValueError\<close> when the column labels are not unique, \<open>KeyError\<close>
  when the label is missing; otherwise every row is exploded, in row order.
\<close>

definition explode :: "frame \<Rightarrow> string \<Rightarrow> error + frame" where
  "explode df c =
     (if \<not> distinct (columns df) then Inl ValueError
      else if c \<notin> set (columns df) then Inl KeyError
      else Inr (df\<lparr>rows := concat (map (explode_row (columns df) c) (rows df))\<rparr>))"

section \<open>\<open>explode_columns\<close>\<close>

text \<open>
  The loop over \<open>cols_to_explode\<close>; the messages printed so far are threaded through.
  An exception leaves the loop with the messages printed before it.
\<close>

fun explode_loop :: "frame \<Rightarrow> string list \<Rightarrow> msg list \<Rightarrow> msg list \<times> (error + frame)" where
  "explode_loop df_result [] out = (out, Inr df_result)"
| "explode_loop df_result (col_to_explode # cs) out =
     (case all_lists df_result col_to_explode of
        Inl e \<Rightarrow> (out, Inl e)
      | Inr True \<Rightarrow>
          (case explode df_result col_to_explode of
             Inl e \<Rightarrow> (out, Inl e)
           | Inr df' \<Rightarrow> explode_loop df' cs out)
      | Inr False \<Rightarrow> explode_loop df_result cs (out @ [WarnNoLists col_to_explode]))"

text \<open>
  The two handlers: \<open>except KeyError\<close> first, \<open>except Exception\<close> for everything else.
  Both print and return \<open>None\<close>.
\<close>

definition explode_handler :: "msg list \<Rightarrow> error \<Rightarrow> msg list \<times> frame option" where
  "explode_handler out e =
     (if e = KeyError then (out @ [ColumnsNotFound], None)
      else (out @ [GenericError], None))"

definition explode_columns ::
  "frame \<Rightarrow> string list \<Rightarrow> string list \<Rightarrow> msg list \<times> frame option" where
  "explode_columns df_origin cols_to_select cols_to_explode =
     (case getitem_list df_origin cols_to_select of
        Inl e \<Rightarrow> explode_handler [] e
      | Inr sel \<Rightarrow>
          (case explode_loop (copy sel) cols_to_explode [] of
             (out, Inl e) \<Rightarrow> explode_handler out e
           | (out, Inr df_result) \<Rightarrow> (out, Some df_result)))"


text \<open>
  The same function over an explicit store of frame objects, to speak about aliasing: a
  reference is a position in the heap, and each pandas operation that returns a frame
  (\<open>df[cols]\<close>, \<open>copy\<close>, \<open>explode\<close>) allocates a new object; rebinding the local
  variable \<open>df_result\<close> changes the reference held, not an object. The test
  \<open>all_lists\<close> only reads.
\<close>

type_synonym heap = "frame list"

fun explode_loop_heap ::
  "heap \<Rightarrow> nat \<Rightarrow> string list \<Rightarrow> msg list \<Rightarrow> msg list \<times> (error + nat) \<times> heap" where
  "explode_loop_heap h df_result [] out = (out, Inr df_result, h)"
| "explode_loop_heap h df_result (col_to_explode # cs) out =
     (case all_lists (h ! df_result) col_to_explode of
        Inl e \<Rightarrow> (out, Inl e, h)
      | Inr True \<Rightarrow>
          (case explode (h ! df_result) col_to_explode of
             Inl e \<Rightarrow> (out, Inl e, h)
           | Inr df' \<Rightarrow> explode_loop_heap (h @ [df']) (length h) cs out)
      | Inr False \<Rightarrow> explode_loop_heap h df_result cs (out @ [WarnNoLists col_to_explode]))"

definition explode_columns_heap ::
  "heap \<Rightarrow> nat \<Rightarrow> string list \<Rightarrow> string list \<Rightarrow> msg list \<times> nat option \<times> heap" where
  "explode_columns_heap h df_origin cols_to_select cols_to_explode =
     (case getitem_list (h ! df_origin) cols_to_select of
        Inl e \<Rightarrow> (fst (explode_handler [] e), None, h)
      | Inr sel \<Rightarrow>
          (let h1 = h @ [sel];
               h2 = h1 @ [copy (h1 ! length h)]
           in case explode_loop_heap h2 (length h1) cols_to_explode [] of
                (out, Inl e, h') \<Rightarrow> (fst (explode_handler out e), None, h')
              | (out, Inr df_result, h') \<Rightarrow> (out, Some df_result, h')))"

text \<open>
  The explosion as the specification words it, for comparison with the code: restrict to
  the selected columns; replace each row by one row per element of its list, the other
  cells repeated. \<open>exploded_values\<close> gives the values that take the place of a cell:
  the elements of a non-empty list, one missing value for the empty list, the cell
  itself otherwise.
\<close>

definition col_index :: "string list \<Rightarrow> string \<Rightarrow> nat" where
  "col_index cols c = length (takeWhile (\<lambda>n. n \<noteq> c) cols)"

fun exploded_values :: "cell \<Rightarrow> cell list" where
  "exploded_values (ListV xs) = (if xs = [] then [Null] else xs)"
| "exploded_values v = [v]"

definition select_spec :: "frame \<Rightarrow> string list \<Rightarrow> frame" where
  "select_spec df sel =
     \<lparr>columns = sel, rows = map (\<lambda>r. map (cell_at (columns df) r) sel) (rows df)\<rparr>"

definition explode_spec :: "string \<Rightarrow> frame \<Rightarrow> frame" where
  "explode_spec c df =
     df\<lparr>rows := concat (map (\<lambda>r. map (\<lambda>x. r[col_index (columns df) c := x])
                                   (exploded_values (cell_at (columns df) r c))) (rows df))\<rparr>"

definition is_list_column :: "frame \<Rightarrow> string \<Rightarrow> bool" where
  "is_list_column df c = list_all (\<lambda>r. is_list (cell_at (columns df) r c)) (rows df)"

section \<open>Delta Lake calls\<close>

text \<open>
  The calls into deltalake and pyarrow are not code of this repository. They are
  parameters of the model: a library says, for each call, what it returns or raises and,
  for the calls that write, what storage it leaves. Nothing more is assumed of them. The
  type parameters are the state of the storage, the table handle that \<open>DeltaTable(path)\<close>
  returns, and the Arrow table.

  \<open>merge_insert_all\<close> is the chain
  \<open>dt.merge(source, predicate, source_alias, target_alias).when_not_matched_insert_all().execute()\<close>;
  the predicate is the string the caller passes.
\<close>

datatype write_mode = Overwrite | Append | ErrorIfExists | Ignore

record ('s, 't, 'a) library =
  DeltaTable :: "'s \<Rightarrow> string \<Rightarrow> error + 't"
  from_pandas :: "frame \<Rightarrow> error + 'a"
  merge_insert_all :: "'s \<Rightarrow> 't \<Rightarrow> 'a \<Rightarrow> string \<Rightarrow> 's \<times> error option"
  write_deltalake ::
    "'s \<Rightarrow> string \<Rightarrow> frame \<Rightarrow> write_mode \<Rightarrow> string list option \<Rightarrow> 's \<times> error option"

section \<open>\<open>save_data_as_delta\<close> and \<open>save_new_data_as_delta\<close>\<close>

text \<open>
  A call returns the storage it leaves and the exception that escapes it, if any. An
  argument left out is \<open>None\<close>; the mode then is \<open>overwrite\<close>.
\<close>

definition save_data_as_delta ::
  "('s, 't, 'a) library \<Rightarrow> frame \<Rightarrow> string \<Rightarrow> write_mode option \<Rightarrow> string list option \<Rightarrow>
   's \<Rightarrow> 's \<times> error option" where
  "save_data_as_delta lib df path mode partition_cols st =
     write_deltalake lib st path df (case mode of None \<Rightarrow> Overwrite | Some m \<Rightarrow> m) partition_cols"

text \<open>The body of the \<open>try\<close>: the first call that raises ends it.\<close>

definition merge_attempt ::
  "('s, 't, 'a) library \<Rightarrow> frame \<Rightarrow> string \<Rightarrow> string \<Rightarrow> 's \<Rightarrow> 's \<times> error option" where
  "merge_attempt lib new_data data_path predicate st =
     (case DeltaTable lib st data_path of
        Inl e \<Rightarrow> (st, Some e)
      | Inr dt \<Rightarrow>
          (case from_pandas lib new_data of
             Inl e \<Rightarrow> (st, Some e)
           | Inr new_data_pa \<Rightarrow> merge_insert_all lib st dt new_data_pa predicate))"

text \<open>
  \<open>save_new_data_as_delta\<close>: \<open>except TableNotFoundError\<close> is the only handler; it
  writes the new data in full, without a mode. Any other exception escapes.
\<close>

definition save_new_data_as_delta ::
  "('s, 't, 'a) library \<Rightarrow> frame \<Rightarrow> string \<Rightarrow> string \<Rightarrow> string list option \<Rightarrow>
   's \<Rightarrow> 's \<times> error option" where
  "save_new_data_as_delta lib new_data data_path predicate partition_cols st =
     (case merge_attempt lib new_data data_path predicate st of
        (st', None) \<Rightarrow> (st', None)
      | (st', Some e) \<Rightarrow>
          (if e = TableNotFoundError
           then save_data_as_delta lib new_data data_path None partition_cols st'
           else (st', Some e)))"


text \<open>
  A scripted stand-in for the library, for concrete runs: each call answers as the script
  says, and the calls that write are appended to a log, which is the storage.
\<close>

datatype call =
    MergeCall frame string
  | WriteCall string frame write_mode "string list option"

definition scripted ::
  "error option \<Rightarrow> error option \<Rightarrow> error option \<Rightarrow> error option \<Rightarrow> (call list, unit, frame) library" where
  "scripted on_open on_convert on_merge on_write =
     \<lparr>DeltaTable = (\<lambda>st path. case on_open of Some e \<Rightarrow> Inl e | None \<Rightarrow> Inr ()),
      from_pandas = (\<lambda>df. case on_convert of Some e \<Rightarrow> Inl e | None \<Rightarrow> Inr df),
      merge_insert_all = (\<lambda>st dt source predicate. (st @ [MergeCall source predicate], on_merge)),
      write_deltalake = (\<lambda>st path df mode partition_by.
                           (st @ [WriteCall path df mode partition_by], on_write))\<rparr>"

section \<open>\<open>get_data\<close>\<close>

text \<open>
  JSON values as Python holds them after parsing; \<open>JNull\<close> is Python's \<open>None\<close>.
  A response carries its status code and its body, parsed when the body is JSON.
  The network is a parameter: what \<open>requests.get\<close> does for a URL, query parameters and
  headers, either raising or returning a response.
\<close>

datatype json =
    JNull
  | JBool bool
  | JNum int
  | JStr string
  | JArr "json list"
  | JObj "(string \<times> json) list"

record response =
  status_code :: nat
  body :: "json option"

datatype http_outcome = Raised error | Responded response

type_synonym requests_get =
  "string \<Rightarrow> (string \<times> string) list option \<Rightarrow> (string \<times> string) list option \<Rightarrow> http_outcome"

text \<open>A network that answers every request with the same response.\<close>

definition always_responds :: "response \<Rightarrow> requests_get" where
  "always_responds r url params headers = Responded r"

text \<open>The exceptions that derive from \<open>requests.exceptions.RequestException\<close>.\<close>

definition is_request_exception :: "error \<Rightarrow> bool" where
  "is_request_exception e = (e = HTTPError \<or> e = ConnectionError)"

text \<open>\<open>response.raise_for_status()\<close> raises for the client and server error codes, 400 to 599.\<close>

definition raise_for_status :: "response \<Rightarrow> error + unit" where
  "raise_for_status r =
     (if 400 \<le> status_code r \<and> status_code r < 600 then Inl HTTPError else Inr ())"

definition response_json :: "response \<Rightarrow> error + json" where
  "response_json r = (case body r of None \<Rightarrow> Inl JSONDecodeError | Some j \<Rightarrow> Inr j)"

text \<open>\<open>data[data_field]\<close> with a string key: only an object can be indexed so.\<close>

definition json_getitem :: "json \<Rightarrow> string \<Rightarrow> error + json" where
  "json_getitem d k =
     (case d of
        JObj kvs \<Rightarrow> (case map_of kvs k of None \<Rightarrow> Inl KeyError | Some v \<Rightarrow> Inr v)
      | _ \<Rightarrow> Inl TypeError)"

text \<open>
  The inner \<open>try\<close> with its bare \<open>except\<close>, then the outer one, which catches request
  exceptions only. The result is the messages printed and the value returned, or the
  exception that escapes.
\<close>

definition get_data ::
  "requests_get \<Rightarrow> string \<Rightarrow> string \<Rightarrow> string \<Rightarrow> (string \<times> string) list option \<Rightarrow>
   (string \<times> string) list option \<Rightarrow> error + (msg list \<times> json)" where
  "get_data requests_get base_url endpoint data_field params headers =
     (let endpoint_url = base_url @ ''/'' @ endpoint in
      case (case requests_get endpoint_url params headers of
              Raised e \<Rightarrow> Inl e
            | Responded response \<Rightarrow>
                (case raise_for_status response of
                   Inl e \<Rightarrow> Inl e
                 | Inr _ \<Rightarrow>
                     (case (case response_json response of
                              Inl e \<Rightarrow> Inl e
                            | Inr parsed \<Rightarrow> json_getitem parsed data_field) of
                        Inl _ \<Rightarrow> Inr ([UnexpectedFormat], JNull)
                      | Inr field \<Rightarrow> Inr ([], field)))) of
        Inl e \<Rightarrow> (if is_request_exception e then Inr ([RequestFailed], JNull) else Inl e)
      | Inr r \<Rightarrow> Inr r)"

section \<open>\<open>build_table_incremental\<close>\<close>

text \<open>
  \<open>pd.DataFrame(json_data)\<close> for a list of records: the columns are the keys in order
  of first appearance, and a record without a key has a missing value there.
\<close>

definition DataFrame :: "(string \<times> cell) list list \<Rightarrow> frame" where
  "DataFrame recs =
     (let cols = rev (remdups (rev (concat (map (map fst) recs))))
      in \<lparr>columns = cols,
          rows = map (\<lambda>d. map (\<lambda>c. case map_of d c of Some v \<Rightarrow> v | None \<Rightarrow> Null) cols) recs\<rparr>)"

text \<open>\<open>df[c] = v\<close> with a scalar: the column is replaced, or added last, with \<open>v\<close> in every row.\<close>

definition setitem_scalar :: "frame \<Rightarrow> string \<Rightarrow> cell \<Rightarrow> frame" where
  "setitem_scalar df c v =
     (if c \<in> set (columns df)
      then df\<lparr>rows := map (\<lambda>r. set_cell (columns df) r c v) (rows df)\<rparr>
      else \<lparr>columns = columns df @ [c], rows = map (\<lambda>r. r @ [v]) (rows df)\<rparr>)"

text \<open>
  The clock: \<open>readings k\<close> is what the \<open>k\<close>-th reading returns, and the count of
  readings made so far is threaded through.
\<close>

record datetime =
  year :: nat
  month :: nat
  day :: nat
  hour :: nat
  minute :: nat
  second :: nat

definition datetime_now :: "(nat \<Rightarrow> datetime) \<Rightarrow> nat \<Rightarrow> datetime \<times> nat" where
  "datetime_now readings k = (readings k, Suc k)"

text \<open>A clock that stands still.\<close>

definition fixed_clock :: "datetime \<Rightarrow> nat \<Rightarrow> datetime" where
  "fixed_clock t k = t"

definition digit_char :: "nat \<Rightarrow> char" where
  "digit_char n = ''0123456789'' ! (n mod 10)"

definition pad2 :: "nat \<Rightarrow> string" where
  "pad2 n = [digit_char (n div 10), digit_char n]"

text \<open>\<open>strftime('%H:%M:%S')\<close>.\<close>

definition strftime_HMS :: "datetime \<Rightarrow> string" where
  "strftime_HMS t = pad2 (hour t) @ '':'' @ pad2 (minute t) @ '':'' @ pad2 (second t)"

definition build_table_incremental ::
  "(nat \<Rightarrow> datetime) \<Rightarrow> nat \<Rightarrow> (string \<times> cell) list list \<Rightarrow> frame \<times> nat" where
  "build_table_incremental readings k json_data =
     (let df = DataFrame json_data;
          (fecha_hora, k') = datetime_now readings k;
          df = setitem_scalar df ''fecha_consulta''
                 (DateV (year fecha_hora) (month fecha_hora) (day fecha_hora));
          df = setitem_scalar df ''hora_consulta'' (StrV (strftime_HMS fecha_hora))
      in (df, k'))"

definition is_digit :: "char \<Rightarrow> bool" where
  "is_digit ch = (ch \<in> set ''0123456789'')"

section \<open>Facts about cells and columns\<close>

lemma filter_eq_single:
  "distinct cols \<Longrightarrow> c \<in> set cols \<Longrightarrow> filter (\<lambda>n. n = c) cols = [c]"
  by (induction cols) (auto simp: filter_empty_conv)

lemma filter_zip_single:
  "distinct cols \<Longrightarrow> c \<in> set cols \<Longrightarrow> length r = length cols \<Longrightarrow>
   map snd (filter (\<lambda>(n, v). n = c) (zip cols r)) = [cell_at cols r c]"
proof (induction cols arbitrary: r)
  case Nil
  then show ?case by simp
next
  case (Cons a cols)
  then obtain v vs where r: "r = v # vs" by (cases r) auto
  show ?case
  proof (cases "a = c")
    case True
    with Cons.prems have "c \<notin> set cols" by simp
    then have "filter (\<lambda>(n, v). n = c) (zip cols vs) = []"
      by (auto simp: filter_empty_conv dest: set_zip_leftD)
    with True show ?thesis by (simp add: r cell_at_def)
  next
    case False
    with Cons r show ?thesis by (simp add: cell_at_def)
  qed
qed

lemma getitem_list_distinct:
  assumes "distinct (columns df)" "set sel \<subseteq> set (columns df)" "wf_frame df"
  shows "getitem_list df sel =
         Inr \<lparr>columns = sel, rows = map (\<lambda>r. map (cell_at (columns df) r) sel) (rows df)\<rparr>"
proof -
  have c: "concat (map (\<lambda>c. filter (\<lambda>n. n = c) (columns df)) sel) = sel"
    using assms(2)
  proof (induction sel)
    case Nil
    then show ?case by simp
  next
    case (Cons a sel)
    then show ?case using filter_eq_single[OF assms(1), of a] by simp
  qed
  have r: "concat (map (\<lambda>c. map snd (filter (\<lambda>(n, v). n = c) (zip (columns df) r))) sel)
           = map (cell_at (columns df) r) sel" if "r \<in> set (rows df)" for r
  proof -
    from that assms(3) have len: "length r = length (columns df)"
      by (simp add: wf_frame_def list_all_iff)
    show ?thesis using assms(2)
    proof (induction sel)
      case Nil
      then show ?case by simp
    next
      case (Cons a sel)
      then show ?case using filter_zip_single[OF assms(1) _ len, of a] by simp
    qed
  qed
  from assms(2) have "\<not> (\<exists>c\<in>set sel. c \<notin> set (columns df))" by auto
  then show ?thesis using c r by (simp add: getitem_list_def)
qed

lemma set_cell_update:
  "distinct cols \<Longrightarrow> length r = length cols \<Longrightarrow>
   set_cell cols r c x = r[col_index cols c := x]"
proof (induction cols arbitrary: r)
  case Nil
  then show ?case by (simp add: set_cell_def)
next
  case (Cons a cols)
  then obtain v vs where r: "r = v # vs" by (cases r) auto
  show ?case
  proof (cases "a = c")
    case True
    with Cons.prems have "c \<notin> set cols" by simp
    then have "map (\<lambda>(n, v). if n = c then x else v) (zip cols vs) = map snd (zip cols vs)"
      by (auto dest: set_zip_leftD)
    also have "\<dots> = vs" using Cons.prems r by simp
    finally show ?thesis using True by (simp add: r set_cell_def col_index_def)
  next
    case False
    have "set_cell cols vs c x = vs[col_index cols c := x]"
      using Cons r by simp
    with False show ?thesis by (simp add: r set_cell_def col_index_def)
  qed
qed

lemma cell_at_nth:
  "distinct cols \<Longrightarrow> length r = length cols \<Longrightarrow> c \<in> set cols \<Longrightarrow>
   cell_at cols r c = r ! col_index cols c"
proof (induction cols arbitrary: r)
  case Nil
  then show ?case by simp
next
  case (Cons a cols)
  then obtain v vs where r: "r = v # vs" by (cases r) auto
  with Cons show ?case by (auto simp: cell_at_def col_index_def)
qed

lemma exploded_values_nonempty: "exploded_values v \<noteq> []"
  by (cases v) auto

lemma col_index_less: "c \<in> set cols \<Longrightarrow> col_index cols c < length cols"
  unfolding col_index_def by (induction cols) auto

lemma col_index_inj:
  "c \<in> set cols \<Longrightarrow> col_index cols c = col_index cols c' \<Longrightarrow> c = c'"
  unfolding col_index_def by (induction cols) (auto split: if_splits)

lemma cell_at_map: "distinct sel \<Longrightarrow> c \<in> set sel \<Longrightarrow> cell_at sel (map f sel) c = f c"
proof -
  assume "distinct sel" "c \<in> set sel"
  have "map_of (zip sel (map f sel)) c = Some (f c)"
    using \<open>c \<in> set sel\<close> by (induction sel) auto
  then show ?thesis by (simp add: cell_at_def)
qed

lemma count_list_distinct:
  "distinct xs \<Longrightarrow> x \<in> set xs \<Longrightarrow> count_list xs x = 1"
  by (induction xs) auto

section \<open>The explosion computes what the specification describes\<close>

lemma explode_row_spec:
  assumes "distinct cols" "length r = length cols" "c \<in> set cols"
  shows "explode_row cols c r =
         map (\<lambda>x. r[col_index cols c := x]) (exploded_values (cell_at cols r c))"
proof -
  have nth: "r ! col_index cols c = cell_at cols r c"
    using assms by (simp add: cell_at_nth)
  have same: "r[col_index cols c := cell_at cols r c] = r"
    unfolding nth[symmetric] by (rule list_update_id)
  show ?thesis
    using assms same
    by (cases "cell_at cols r c") (simp_all add: explode_row_def set_cell_update)
qed

lemma explode_eq_spec:
  assumes "distinct (columns df)" "wf_frame df" "c \<in> set (columns df)"
  shows "explode df c = Inr (explode_spec c df)"
proof -
  have "map (explode_row (columns df) c) (rows df) =
        map (\<lambda>r. map (\<lambda>x. r[col_index (columns df) c := x])
                  (exploded_values (cell_at (columns df) r c))) (rows df)"
    using assms by (intro map_cong refl explode_row_spec) (auto simp: wf_frame_def list_all_iff)
  then have "concat (map (explode_row (columns df) c) (rows df)) =
        concat (map (\<lambda>r. map (\<lambda>x. r[col_index (columns df) c := x])
                  (exploded_values (cell_at (columns df) r c))) (rows df))"
    by (rule arg_cong)
  then show ?thesis using assms(1,3) by (simp add: explode_def explode_spec_def)
qed

lemma columns_explode_spec [simp]: "columns (explode_spec c df) = columns df"
  by (simp add: explode_spec_def)

lemma wf_explode_spec: "wf_frame df \<Longrightarrow> wf_frame (explode_spec c df)"
  by (auto simp: wf_frame_def explode_spec_def list_all_iff)

lemma is_list_column_explode_spec:
  assumes "distinct (columns df)" "wf_frame df" "c \<in> set (columns df)"
    "c' \<in> set (columns df)" "c \<noteq> c'"
  shows "is_list_column (explode_spec c df) c' = is_list_column df c'"
proof -
  let ?cols = "columns df"
  have ne: "col_index ?cols c \<noteq> col_index ?cols c'"
    using assms col_index_inj by blast
  have row: "list_all (\<lambda>r'. is_list (cell_at ?cols r' c'))
               (map (\<lambda>x. r[col_index ?cols c := x]) (exploded_values (cell_at ?cols r c)))
             = is_list (cell_at ?cols r c')" if "r \<in> set (rows df)" for r
  proof -
    from that assms(2) have len: "length r = length ?cols"
      by (simp add: wf_frame_def list_all_iff)
    have "cell_at ?cols (r[col_index ?cols c := x]) c' = cell_at ?cols r c'" for x
      using assms(1,4) len ne by (simp add: cell_at_nth)
    then show ?thesis
      using exploded_values_nonempty[of "cell_at ?cols r c"]
      by (cases "exploded_values (cell_at ?cols r c)") (auto simp: list_all_iff)
  qed
  have "is_list_column (explode_spec c df) c' =
        list_all (\<lambda>r. list_all (\<lambda>r'. is_list (cell_at ?cols r' c'))
          (map (\<lambda>x. r[col_index ?cols c := x]) (exploded_values (cell_at ?cols r c)))) (rows df)"
    by (simp add: is_list_column_def explode_spec_def list_all_iff)
  also have "\<dots> = list_all (\<lambda>r. is_list (cell_at ?cols r c')) (rows df)"
    using row by (simp add: list_all_iff)
  finally show ?thesis by (simp add: is_list_column_def)
qed

lemma all_lists_distinct:
  "distinct (columns df) \<Longrightarrow> c \<in> set (columns df) \<Longrightarrow>
   all_lists df c = Inr (is_list_column df c)"
  by (simp add: all_lists_def is_list_column_def count_list_distinct)

lemma explode_loop_spec:
  assumes "distinct (columns df)" "wf_frame df" "distinct ex" "set ex \<subseteq> set (columns df)"
  shows "explode_loop df ex out =
         (out @ map WarnNoLists (filter (\<lambda>c. \<not> is_list_column df c) ex),
          Inr (fold explode_spec (filter (is_list_column df) ex) df))"
  using assms
proof (induction ex arbitrary: df out)
  case Nil
  then show ?case by simp
next
  case (Cons c cs)
  from Cons.prems have c: "c \<in> set (columns df)" and cs: "set cs \<subseteq> set (columns df)"
    and dcs: "distinct cs" and notin: "c \<notin> set cs" by auto
  show ?case
  proof (cases "is_list_column df c")
    case True
    let ?df' = "explode_spec c df"
    have same: "is_list_column ?df' c' = is_list_column df c'" if "c' \<in> set cs" for c'
      using that Cons.prems(1,2) c cs notin by (intro is_list_column_explode_spec) auto
    have f1: "filter (\<lambda>c. \<not> is_list_column ?df' c) cs = filter (\<lambda>c. \<not> is_list_column df c) cs"
      using same by (intro filter_cong) auto
    have f2: "filter (is_list_column ?df') cs = filter (is_list_column df) cs"
      using same by (intro filter_cong) auto
    have "explode_loop ?df' cs out =
          (out @ map WarnNoLists (filter (\<lambda>c. \<not> is_list_column ?df' c) cs),
           Inr (fold explode_spec (filter (is_list_column ?df') cs) ?df'))"
      using Cons.prems cs dcs by (intro Cons.IH) (auto intro: wf_explode_spec)
    then show ?thesis
      using True Cons.prems(1,2) c
      by (simp add: all_lists_distinct explode_eq_spec f1 f2)
  next
    case False
    have "explode_loop df cs (out @ [WarnNoLists c]) =
          ((out @ [WarnNoLists c]) @ map WarnNoLists (filter (\<lambda>c. \<not> is_list_column df c) cs),
           Inr (fold explode_spec (filter (is_list_column df) cs) df))"
      using Cons.prems cs dcs by (intro Cons.IH) auto
    then show ?thesis
      using False Cons.prems(1) c by (simp add: all_lists_distinct)
  qed
qed

lemma getitem_list_spec:
  "distinct (columns df) \<Longrightarrow> wf_frame df \<Longrightarrow> set sel \<subseteq> set (columns df) \<Longrightarrow>
   getitem_list df sel = Inr (select_spec df sel)"
  by (simp add: getitem_list_distinct select_spec_def)

lemma wf_select_spec: "wf_frame (select_spec df sel)"
  by (simp add: wf_frame_def select_spec_def list_all_iff)

lemma is_list_column_select_spec:
  "distinct sel \<Longrightarrow> c \<in> set sel \<Longrightarrow> is_list_column (select_spec df sel) c = is_list_column df c"
  by (simp add: is_list_column_def select_spec_def list_all_iff cell_at_map)

lemma explode_columns_spec:
  assumes "distinct (columns df)" "wf_frame df" "distinct sel" "set sel \<subseteq> set (columns df)"
    "distinct ex" "set ex \<subseteq> set sel"
  shows "explode_columns df sel ex =
         (map WarnNoLists (filter (\<lambda>c. \<not> is_list_column df c) ex),
          Some (fold explode_spec (filter (is_list_column df) ex) (select_spec df sel)))"
proof -
  let ?D = "select_spec df sel"
  have cols: "columns ?D = sel" by (simp add: select_spec_def)
  have same: "is_list_column ?D c = is_list_column df c" if "c \<in> set ex" for c
    using that assms(3,6) by (intro is_list_column_select_spec) auto
  have f1: "filter (\<lambda>c. \<not> is_list_column ?D c) ex = filter (\<lambda>c. \<not> is_list_column df c) ex"
    using same by (intro filter_cong) auto
  have f2: "filter (is_list_column ?D) ex = filter (is_list_column df) ex"
    using same by (intro filter_cong) auto
  have "explode_loop ?D ex [] =
        ([] @ map WarnNoLists (filter (\<lambda>c. \<not> is_list_column ?D c) ex),
         Inr (fold explode_spec (filter (is_list_column ?D) ex) ?D))"
    using assms(3,5,6) by (intro explode_loop_spec) (auto simp: cols wf_select_spec)
  then show ?thesis
    using assms(1,2,4) by (simp add: explode_columns_def getitem_list_spec copy_def f1 f2)
qed

lemma explode_loop_columns:
  "explode_loop df ex out = (out', Inr df') \<Longrightarrow> columns df' = columns df"
proof (induction ex arbitrary: df out)
  case Nil
  then show ?case by simp
next
  case (Cons c cs)
  then show ?case
    by (auto simp: explode_def split: sum.splits bool.splits if_splits)
qed

lemma explode_loop_missing:
  assumes "distinct (columns df)" "\<exists>c \<in> set ex. c \<notin> set (columns df)"
  shows "\<exists>out'. explode_loop df ex out = (out', Inl KeyError)"
  using assms
proof (induction ex arbitrary: df out)
  case Nil
  then show ?case by simp
next
  case (Cons c cs)
  show ?case
  proof (cases "c \<in> set (columns df)")
    case False
    then show ?thesis by (simp add: all_lists_def)
  next
    case True
    with Cons.prems have rest: "\<exists>c \<in> set cs. c \<notin> set (columns df)" by auto
    obtain b where b: "all_lists df c = Inr b" using True by (simp add: all_lists_def)
    show ?thesis
    proof (cases b)
      case False
      with b Cons.IH[OF Cons.prems(1) rest] show ?thesis by simp
    next
      case True
      let ?df' = "df\<lparr>rows := concat (map (explode_row (columns df) c) (rows df))\<rparr>"
      have e: "explode df c = Inr ?df'"
        using Cons.prems(1) \<open>c \<in> set (columns df)\<close> by (simp add: explode_def)
      have "\<exists>out'. explode_loop ?df' cs out = (out', Inl KeyError)"
        using Cons.prems(1) rest by (intro Cons.IH) auto
      with b True e show ?thesis by simp
    qed
  qed
qed

lemma explode_loop_missing_fails:
  "\<exists>c \<in> set ex. c \<notin> set (columns df) \<Longrightarrow> \<exists>out' e. explode_loop df ex out = (out', Inl e)"
proof (induction ex arbitrary: df out)
  case Nil
  then show ?case by simp
next
  case (Cons c cs)
  show ?case
  proof (cases "c \<in> set (columns df)")
    case False
    then show ?thesis by (simp add: all_lists_def)
  next
    case True
    with Cons.prems have rest: "\<exists>c \<in> set cs. c \<notin> set (columns df)" by auto
    obtain b where b: "all_lists df c = Inr b" using True by (simp add: all_lists_def)
    show ?thesis
    proof (cases b)
      case False
      with b Cons.IH[OF rest] show ?thesis by simp
    next
      case t: True
      show ?thesis
      proof (cases "explode df c")
        case (Inl e)
        with b t show ?thesis by simp
      next
        case (Inr df')
        then have "columns df' = columns df" by (auto simp: explode_def split: if_splits)
        with rest have "\<exists>c \<in> set cs. c \<notin> set (columns df')" by simp
        from Cons.IH[OF this] b t Inr show ?thesis by simp
      qed
    qed
  qed
qed

lemma getitem_list_columns:
  assumes "distinct (columns df)" "distinct sel" "getitem_list df sel = Inr s"
  shows "columns s = sel"
proof -
  from assms(3) have sub: "set sel \<subseteq> set (columns df)"
    by (auto simp: getitem_list_def split: if_splits)
  have "concat (map (\<lambda>c. filter (\<lambda>n. n = c) (columns df)) sel) = sel"
    using sub
  proof (induction sel)
    case Nil
    then show ?case by simp
  next
    case (Cons a sel)
    then show ?case using filter_eq_single[OF assms(1), of a] by simp
  qed
  with assms(3) show ?thesis by (auto simp: getitem_list_def split: if_splits)
qed

lemma getitem_list_columns_subset:
  "getitem_list df sel = Inr s \<Longrightarrow> set (columns s) \<subseteq> set (columns df)"
  by (auto simp: getitem_list_def split: if_splits)

lemma explode_loop_heap_pure:
  "r < length h \<Longrightarrow>
   \<exists>ext. snd (snd (explode_loop_heap h r ex out)) = h @ ext \<and>
     fst (explode_loop_heap h r ex out) = fst (explode_loop (h ! r) ex out) \<and>
     (\<forall>e. fst (snd (explode_loop_heap h r ex out)) = Inl e \<longrightarrow>
          snd (explode_loop (h ! r) ex out) = Inl e) \<and>
     (\<forall>r'. fst (snd (explode_loop_heap h r ex out)) = Inr r' \<longrightarrow>
          r' < length (h @ ext) \<and> r \<le> r' \<and>
          snd (explode_loop (h ! r) ex out) = Inr ((h @ ext) ! r'))"
proof (induction ex arbitrary: h r out)
  case Nil
  then show ?case by (intro exI[of _ "[]"]) simp
next
  case (Cons c cs)
  show ?case
  proof (cases "all_lists (h ! r) c")
    case (Inl e)
    then show ?thesis by (intro exI[of _ "[]"]) simp
  next
    case (Inr b)
    show ?thesis
    proof (cases b)
      case False
      from Cons.IH[OF Cons.prems, of "out @ [WarnNoLists c]"] Inr False
      show ?thesis by simp
    next
      case True
      show ?thesis
      proof (cases "explode (h ! r) c")
        case (Inl e)
        with \<open>all_lists (h ! r) c = Inr b\<close> True show ?thesis
          by (intro exI[of _ "[]"]) simp
      next
        case ex: (Inr df')
        let ?L = "explode_loop_heap (h @ [df']) (length h) cs out"
        have lt: "length h < length (h @ [df'])" by simp
        from Cons.IH[OF lt, of out] obtain ext where
          ext: "snd (snd ?L) = (h @ [df']) @ ext"
            "fst ?L = fst (explode_loop df' cs out)"
            "\<forall>e. fst (snd ?L) = Inl e \<longrightarrow> snd (explode_loop df' cs out) = Inl e"
            "\<forall>r'. fst (snd ?L) = Inr r' \<longrightarrow> r' < length ((h @ [df']) @ ext) \<and>
                 length h \<le> r' \<and> snd (explode_loop df' cs out) = Inr (((h @ [df']) @ ext) ! r')"
          by auto
        have heap: "explode_loop_heap h r (c # cs) out = ?L"
          using \<open>all_lists (h ! r) c = Inr b\<close> True ex by simp
        have pure: "explode_loop (h ! r) (c # cs) out = explode_loop df' cs out"
          using \<open>all_lists (h ! r) c = Inr b\<close> True ex by simp
        show ?thesis
          unfolding heap pure using ext Cons.prems
          by (intro exI[of _ "df' # ext"]) auto
      qed
    qed
  qed
qed

section \<open>Claims about \<open>explode_columns\<close>\<close>

text \<open>
  Claim C3 (explosion cardinality and order), as the code has it. Take a frame with
  pairwise distinct labels, a selection of distinct labels of the frame, and one selected
  column \<open>c\<close> all of whose cells are lists. Then \<open>explode_columns\<close> prints
  nothing and returns the selected columns, where every source row, in source order, is
  replaced by one row per element of its list, in element order, each equal to the source
  row except that the cell under \<open>c\<close> holds the element. A list of length
  \<open>N > 0\<close> gives \<open>N\<close> rows. The empty list does not give zero rows: it gives one
  row whose cell under \<open>c\<close> is missing (\<open>exploded_values\<close>).
\<close>

theorem explode_cardinality_order:
  assumes "distinct (columns df)" "wf_frame df" "distinct sel" "set sel \<subseteq> set (columns df)"
    "c \<in> set sel" "\<forall>r \<in> set (rows df). is_list (cell_at (columns df) r c)"
  shows "explode_columns df sel [c] =
         ([], Some \<lparr>columns = sel,
                    rows = concat (map (\<lambda>r. map (\<lambda>x. (map (cell_at (columns df) r) sel)
                                                      [col_index sel c := x])
                                        (exploded_values (cell_at (columns df) r c)))
                                  (rows df))\<rparr>)"
proof -
  have il: "is_list_column df c"
    using assms(6) by (simp add: is_list_column_def list_all_iff)
  have "explode_columns df sel [c] =
        (map WarnNoLists (filter (\<lambda>c. \<not> is_list_column df c) [c]),
         Some (fold explode_spec (filter (is_list_column df) [c]) (select_spec df sel)))"
    using assms(1-5) by (intro explode_columns_spec) auto
  then show ?thesis
    using il assms(3,5)
    by (simp add: explode_spec_def select_spec_def cell_at_map comp_def)
qed

text \<open>
  The theorem at a table of two stops with two routes and one route.
\<close>

theorem explode_cardinality_order_witness:
  "explode_columns
     \<lparr>columns = [''StopID'', ''Name'', ''Routes''],
      rows = [[IntV 1, StrV ''Main St'', ListV [StrV ''10A'', StrV ''10B'']],
              [IntV 2, StrV ''Depot'', ListV [StrV ''7'']]]\<rparr>
     [''StopID'', ''Routes''] [''Routes'']
   = ([], Some \<lparr>columns = [''StopID'', ''Routes''],
                rows = [[IntV 1, StrV ''10A''], [IntV 1, StrV ''10B''], [IntV 2, StrV ''7'']]\<rparr>)"
proof -
  let ?df = "\<lparr>columns = [''StopID'', ''Name'', ''Routes''],
      rows = [[IntV 1, StrV ''Main St'', ListV [StrV ''10A'', StrV ''10B'']],
              [IntV 2, StrV ''Depot'', ListV [StrV ''7'']]]\<rparr>"
  have h1: "distinct (columns ?df)" by simp
  have h2: "wf_frame ?df" by (simp add: wf_frame_def)
  have h3: "distinct [''StopID'', ''Routes'']" by simp
  have h4: "set [''StopID'', ''Routes''] \<subseteq> set (columns ?df)" by simp
  have h5: "''Routes'' \<in> set [''StopID'', ''Routes'']" by simp
  have h6: "\<forall>r \<in> set (rows ?df). is_list (cell_at (columns ?df) r ''Routes'')"
    by (simp add: cell_at_def)
  show ?thesis
    unfolding explode_cardinality_order[OF h1 h2 h3 h4 h5 h6]
    by (simp add: cell_at_def col_index_def)
qed

text \<open>
  The claim as worded says that an empty list yields no output row. A stop whose route
  list is empty still yields one row, with a missing route.
\<close>

theorem explode_cardinality_order_counterexample:
  "explode_columns \<lparr>columns = [''StopID'', ''Routes''], rows = [[IntV 1, ListV []]]\<rparr>
          [''StopID'', ''Routes''] [''Routes'']
        = ([], Some \<lparr>columns = [''StopID'', ''Routes''], rows = [[IntV 1, Null]]\<rparr>) \<and>
   length [[IntV 1, Null]] \<noteq> 0"
  by (simp add: explode_columns_def getitem_list_def copy_def all_lists_def cell_at_def
      explode_def explode_row_def set_cell_def)

text \<open>
  Claim C6 (column absence is all-or-nothing). When a name of \<open>cols_to_select\<close> or
  of \<open>cols_to_explode\<close> is not a column of the source, \<open>explode_columns\<close> returns
  \<open>None\<close>: there is no partial result. When the absent name is a selected one, the
  only message printed is the one of the \<open>KeyError\<close> handler. When it is a name to
  explode, earlier columns may have been handled (and warned about) first, and the last
  message is the one of the \<open>KeyError\<close> handler, for frames and selections whose labels
  are pairwise distinct, as the columns of the specification's tables are.
\<close>

theorem explode_missing_column:
  assumes "(\<exists>c \<in> set sel. c \<notin> set (columns df)) \<or> (\<exists>c \<in> set ex. c \<notin> set (columns df))"
  shows "snd (explode_columns df sel ex) = None \<and>
         ((\<exists>c \<in> set sel. c \<notin> set (columns df)) \<longrightarrow>
            explode_columns df sel ex = ([ColumnsNotFound], None)) \<and>
         (distinct (columns df) \<and> distinct sel \<longrightarrow>
            (\<exists>out. explode_columns df sel ex = (out @ [ColumnsNotFound], None)))"
proof (cases "getitem_list df sel")
  case (Inl e)
  then have "e = KeyError" by (auto simp: getitem_list_def split: if_splits)
  with Inl have "explode_columns df sel ex = ([ColumnsNotFound], None)"
    by (simp add: explode_columns_def explode_handler_def)
  then show ?thesis by simp
next
  case (Inr s)
  then have sub: "\<not> (\<exists>c \<in> set sel. c \<notin> set (columns df))"
    by (auto simp: getitem_list_def split: if_splits)
  with assms have ex: "\<exists>c \<in> set ex. c \<notin> set (columns df)" by simp
  with getitem_list_columns_subset[OF Inr] have ex': "\<exists>c \<in> set ex. c \<notin> set (columns (copy s))"
    by (auto simp: copy_def)
  from explode_loop_missing_fails[OF ex', of "[]"] obtain out' e
    where "explode_loop (copy s) ex [] = (out', Inl e)" by blast
  with Inr have none: "snd (explode_columns df sel ex) = None"
    by (simp add: explode_columns_def explode_handler_def)
  have "\<exists>out. explode_columns df sel ex = (out @ [ColumnsNotFound], None)"
    if d: "distinct (columns df)" "distinct sel"
  proof -
    have cols: "columns s = sel" using d Inr by (rule getitem_list_columns)
    have "distinct (columns (copy s))" using d(2) by (simp add: cols copy_def)
    then obtain out' where "explode_loop (copy s) ex [] = (out', Inl KeyError)"
      using explode_loop_missing ex' by blast
    with Inr show ?thesis by (simp add: explode_columns_def explode_handler_def)
  qed
  with none sub show ?thesis by blast
qed

text \<open>
  The theorem at a stop table: a selected name that is absent, and a name to explode that
  is absent after a column that explodes.
\<close>

theorem explode_missing_column_witness:
  "explode_columns \<lparr>columns = [''StopID'', ''Routes''], rows = [[IntV 1, ListV [StrV ''10A'']]]\<rparr>
     [''StopID'', ''Name''] [] = ([ColumnsNotFound], None) \<and>
   explode_columns \<lparr>columns = [''StopID'', ''Routes''], rows = [[IntV 1, ListV [StrV ''10A'']]]\<rparr>
     [''StopID'', ''Routes''] [''Routes'', ''Name''] = ([ColumnsNotFound], None)"
proof -
  let ?df = "\<lparr>columns = [''StopID'', ''Routes''], rows = [[IntV 1, ListV [StrV ''10A'']]]\<rparr>"
  have a: "explode_columns ?df [''StopID'', ''Name''] [] = ([ColumnsNotFound], None)"
    using explode_missing_column[of "[''StopID'', ''Name'']" ?df "[]"] by simp
  have "\<exists>out. explode_columns ?df [''StopID'', ''Routes''] [''Routes'', ''Name'']
          = (out @ [ColumnsNotFound], None)"
    using explode_missing_column[of "[''StopID'', ''Routes'']" ?df "[''Routes'', ''Name'']"]
    by simp
  then have b: "explode_columns ?df [''StopID'', ''Routes''] [''Routes'', ''Name'']
          = ([ColumnsNotFound], None)"
    by (simp add: explode_columns_def getitem_list_def copy_def all_lists_def cell_at_def
        explode_def explode_row_def set_cell_def explode_handler_def)
  show ?thesis using a b by simp
qed

text \<open>
  Claim C7 (non-list tolerance). For a frame and a selection with pairwise distinct
  labels, and distinct columns to explode among the selected ones: the call does not fail;
  it prints one warning for each column to explode that has a cell which is not a list, in
  order, and leaves that column as it is; and its result is the selected frame with
  exactly the other columns to explode, those whose cells are all lists, exploded in
  order. In particular every such column is warned about, and a call that names only
  such a column returns the selected frame as it is, row for row.
\<close>

theorem explode_non_list_tolerance:
  assumes "distinct (columns df)" "wf_frame df" "distinct sel" "set sel \<subseteq> set (columns df)"
    "distinct ex" "set ex \<subseteq> set sel"
  shows "explode_columns df sel ex =
           (map WarnNoLists (filter (\<lambda>c. \<not> is_list_column df c) ex),
            Some (fold explode_spec (filter (is_list_column df) ex) (select_spec df sel))) \<and>
         (\<forall>c \<in> set ex. \<not> is_list_column df c \<longrightarrow>
            WarnNoLists c \<in> set (fst (explode_columns df sel ex))) \<and>
         (\<forall>c \<in> set sel. \<not> is_list_column df c \<longrightarrow>
            explode_columns df sel [c] = ([WarnNoLists c], Some (select_spec df sel)))"
proof -
  have all: "explode_columns df sel ex =
           (map WarnNoLists (filter (\<lambda>c. \<not> is_list_column df c) ex),
            Some (fold explode_spec (filter (is_list_column df) ex) (select_spec df sel)))"
    using assms by (rule explode_columns_spec)
  have warned: "WarnNoLists c \<in> set (fst (explode_columns df sel ex))"
    if "c \<in> set ex" "\<not> is_list_column df c" for c
    unfolding all using that by simp
  have one: "explode_columns df sel [c] = ([WarnNoLists c], Some (select_spec df sel))"
    if c: "c \<in> set sel" "\<not> is_list_column df c" for c
  proof -
    have "explode_columns df sel [c] =
           (map WarnNoLists (filter (\<lambda>c. \<not> is_list_column df c) [c]),
            Some (fold explode_spec (filter (is_list_column df) [c]) (select_spec df sel)))"
      using assms(1-4) c(1) by (intro explode_columns_spec) auto
    with c(2) show ?thesis by simp
  qed
  from all warned one show ?thesis by blast
qed

text \<open>
  The theorem at a stop table where the name column holds strings and the route column
  holds lists: one warning, and the routes are exploded.
\<close>

theorem explode_non_list_tolerance_witness:
  "explode_columns
     \<lparr>columns = [''StopID'', ''Name'', ''Routes''],
      rows = [[IntV 1, StrV ''Main St'', ListV [StrV ''10A'', StrV ''10B'']],
              [IntV 2, StrV ''Depot'', ListV [StrV ''7'']]]\<rparr>
     [''StopID'', ''Name'', ''Routes''] [''Name'', ''Routes'']
   = ([WarnNoLists ''Name''],
      Some \<lparr>columns = [''StopID'', ''Name'', ''Routes''],
            rows = [[IntV 1, StrV ''Main St'', StrV ''10A''],
                    [IntV 1, StrV ''Main St'', StrV ''10B''],
                    [IntV 2, StrV ''Depot'', StrV ''7'']]\<rparr>)"
proof -
  let ?df = "\<lparr>columns = [''StopID'', ''Name'', ''Routes''],
      rows = [[IntV 1, StrV ''Main St'', ListV [StrV ''10A'', StrV ''10B'']],
              [IntV 2, StrV ''Depot'', ListV [StrV ''7'']]]\<rparr>"
  have h1: "distinct (columns ?df)" by simp
  have h2: "wf_frame ?df" by (simp add: wf_frame_def)
  have h3: "distinct [''StopID'', ''Name'', ''Routes'']" by simp
  have h4: "set [''StopID'', ''Name'', ''Routes''] \<subseteq> set (columns ?df)" by simp
  have h5: "distinct [''Name'', ''Routes'']" by simp
  have h6: "set [''Name'', ''Routes''] \<subseteq> set [''StopID'', ''Name'', ''Routes'']" by simp
  show ?thesis
    unfolding conjunct1[OF explode_non_list_tolerance[OF h1 h2 h3 h4 h5 h6]]
    by (simp add: is_list_column_def cell_at_def select_spec_def explode_spec_def col_index_def)
qed

text \<open>
  Claim C9 (the input is not mutated). Over the store of frame objects: whatever the call
  prints and returns, every object that existed before the call, the input among them, is
  unchanged after it; a frame returned is a new object, not the input; and the call
  prints and returns what the function over values does.
\<close>

theorem explode_columns_input_unchanged:
  assumes "df_origin < length h"
    and "explode_columns_heap h df_origin sel ex = (out, res, h')"
  shows "take (length h) h' = h \<and> h' ! df_origin = h ! df_origin \<and>
         (\<forall>r. res = Some r \<longrightarrow> length h < r \<and> r < length h') \<and>
         explode_columns (h ! df_origin) sel ex = (out, map_option (\<lambda>r. h' ! r) res)"
proof (cases "getitem_list (h ! df_origin) sel")
  case (Inl e)
  with assms show ?thesis
    by (auto simp: explode_columns_heap_def explode_columns_def explode_handler_def)
next
  case (Inr s)
  let ?h2 = "h @ [s, copy s]"
  let ?L = "explode_loop_heap ?h2 (Suc (length h)) ex []"
  have lt: "Suc (length h) < length ?h2" by simp
  have nth: "?h2 ! Suc (length h) = copy s" by (simp add: nth_append)
  from explode_loop_heap_pure[OF lt, of ex "[]"] obtain ext where
    ext: "snd (snd ?L) = ?h2 @ ext"
      "fst ?L = fst (explode_loop (copy s) ex [])"
      "\<forall>e. fst (snd ?L) = Inl e \<longrightarrow> snd (explode_loop (copy s) ex []) = Inl e"
      "\<forall>r'. fst (snd ?L) = Inr r' \<longrightarrow> r' < length (?h2 @ ext) \<and> Suc (length h) \<le> r' \<and>
             snd (explode_loop (copy s) ex []) = Inr ((?h2 @ ext) ! r')"
    unfolding nth by blast
  obtain o1 r1 h1 where L: "?L = (o1, r1, h1)" by (cases ?L) auto
  obtain o2 r2 where P: "explode_loop (copy s) ex [] = (o2, r2)"
    by (cases "explode_loop (copy s) ex []") auto
  have unf: "explode_columns_heap h df_origin sel ex =
        (case ?L of (out, Inl e, h') \<Rightarrow> (fst (explode_handler out e), None, h')
                  | (out, Inr df_result, h') \<Rightarrow> (out, Some df_result, h'))"
    using Inr by (simp add: explode_columns_heap_def Let_def nth_append)
  from ext L have h1: "h1 = h @ ([s, copy s] @ ext)" by simp
  show ?thesis
  proof (cases r1)
    case (Inl e)
    with ext L P have eq: "o2 = o1" "r2 = Inl e" by auto
    from assms(2) unf L Inl have "out = fst (explode_handler o1 e)" "res = None" "h' = h1"
      by auto
    then show ?thesis
      using assms(1) \<open>getitem_list (h ! df_origin) sel = Inr s\<close> P eq
      by (auto simp: h1 explode_columns_def explode_handler_def nth_append)
  next
    case r: (Inr r')
    with ext L P have eq: "o2 = o1" "r2 = Inr (h1 ! r')" "r' < length h1" "length h < r'"
      by (auto simp: h1)
    from assms(2) unf L r have "out = o1" "res = Some r'" "h' = h1"
      by auto
    then show ?thesis
      using assms(1) \<open>getitem_list (h ! df_origin) sel = Inr s\<close> P eq
      by (auto simp: h1 explode_columns_def nth_append)
  qed
qed

text \<open>
  The theorem at a heap holding one stop table: the selection, its copy and the exploded
  frame are allocated after it.
\<close>

theorem explode_columns_input_unchanged_witness:
  "explode_columns_heap
     [\<lparr>columns = [''StopID'', ''Routes''], rows = [[IntV 1, ListV [StrV ''10A'', StrV ''10B'']]]\<rparr>]
     0 [''StopID'', ''Routes''] [''Routes'']
   = ([], Some 3,
      [\<lparr>columns = [''StopID'', ''Routes''], rows = [[IntV 1, ListV [StrV ''10A'', StrV ''10B'']]]\<rparr>,
       \<lparr>columns = [''StopID'', ''Routes''], rows = [[IntV 1, ListV [StrV ''10A'', StrV ''10B'']]]\<rparr>,
       \<lparr>columns = [''StopID'', ''Routes''], rows = [[IntV 1, ListV [StrV ''10A'', StrV ''10B'']]]\<rparr>,
       \<lparr>columns = [''StopID'', ''Routes''], rows = [[IntV 1, StrV ''10A''], [IntV 1, StrV ''10B'']]\<rparr>]) \<and>
   explode_columns
     \<lparr>columns = [''StopID'', ''Routes''], rows = [[IntV 1, ListV [StrV ''10A'', StrV ''10B'']]]\<rparr>
     [''StopID'', ''Routes''] [''Routes'']
   = ([], Some \<lparr>columns = [''StopID'', ''Routes''],
                rows = [[IntV 1, StrV ''10A''], [IntV 1, StrV ''10B'']]\<rparr>)"
proof -
  let ?df = "\<lparr>columns = [''StopID'', ''Routes''], rows = [[IntV 1, ListV [StrV ''10A'', StrV ''10B'']]]\<rparr>"
  let ?out = "\<lparr>columns = [''StopID'', ''Routes''], rows = [[IntV 1, StrV ''10A''], [IntV 1, StrV ''10B'']]\<rparr>"
  have run: "explode_columns_heap [?df] 0 [''StopID'', ''Routes''] [''Routes'']
             = ([], Some 3, [?df, ?df, ?df, ?out])"
    by (simp add: explode_columns_heap_def getitem_list_def copy_def all_lists_def
        cell_at_def explode_def explode_row_def set_cell_def Let_def)
  have lt: "0 < length [?df]" by simp
  from explode_columns_input_unchanged[OF lt run]
  have "explode_columns ([?df] ! 0) [''StopID'', ''Routes''] [''Routes'']
        = ([], map_option (\<lambda>r. [?df, ?df, ?df, ?out] ! r) (Some 3))"
    by blast
  then have "explode_columns ?df [''StopID'', ''Routes''] [''Routes''] = ([], Some ?out)"
    by (simp add: numeral_3_eq_3)
  with run show ?thesis by simp
qed

section \<open>Claims about \<open>save_new_data_as_delta\<close>\<close>



text \<open>
  Claim C4 (fallback). For every library: when opening the table raises
  \<open>TableNotFoundError\<close>, the call does what the full write does in mode \<open>overwrite\<close>
  with the same data, path and partition columns; a full write without a mode is the
  full write in mode \<open>overwrite\<close>, whatever the storage holds; and the full write hands
  the data, the mode and the partition columns to \<open>write_deltalake\<close>.
\<close>

theorem upsert_fallback:
  "(DeltaTable lib st path = Inl TableNotFoundError \<longrightarrow>
      save_new_data_as_delta lib B path p pc st =
      save_data_as_delta lib B path (Some Overwrite) pc st) \<and>
   save_data_as_delta lib B path None pc st = save_data_as_delta lib B path (Some Overwrite) pc st \<and>
   save_data_as_delta lib B path (Some Overwrite) pc st = write_deltalake lib st path B Overwrite pc"
proof -
  have fallback: "save_new_data_as_delta lib B path p pc st =
      save_data_as_delta lib B path (Some Overwrite) pc st"
    if "DeltaTable lib st path = Inl TableNotFoundError"
  proof -
    from that have "merge_attempt lib B path p st = (st, Some TableNotFoundError)"
      by (simp add: merge_attempt_def)
    then have "save_new_data_as_delta lib B path p pc st = save_data_as_delta lib B path None pc st"
      by (simp add: save_new_data_as_delta_def)
    then show ?thesis by (simp add: save_data_as_delta_def)
  qed
  have default: "save_data_as_delta lib B path None pc st =
      save_data_as_delta lib B path (Some Overwrite) pc st"
    by (simp add: save_data_as_delta_def)
  have passed: "save_data_as_delta lib B path (Some Overwrite) pc st =
      write_deltalake lib st path B Overwrite pc"
    by (simp add: save_data_as_delta_def)
  from fallback default passed show ?thesis by blast
qed

text \<open>
  The theorem at a first write of vehicle positions partitioned by extraction date: the
  one call logged is a write in mode \<open>overwrite\<close> with the partition column.
\<close>

theorem upsert_fallback_witness:
  "save_new_data_as_delta (scripted (Some TableNotFoundError) None None None)
     \<lparr>columns = [''VehicleID'', ''fecha_consulta''], rows = [[IntV 7, DateV 2024 5 6]]\<rparr>
     ''bus_Position'' ''target.VehicleID = source.VehicleID'' (Some [''fecha_consulta'']) []
   = ([WriteCall ''bus_Position''
        \<lparr>columns = [''VehicleID'', ''fecha_consulta''], rows = [[IntV 7, DateV 2024 5 6]]\<rparr>
        Overwrite (Some [''fecha_consulta''])], None) \<and>
   save_data_as_delta (scripted None None None None)
     \<lparr>columns = [''VehicleID'', ''fecha_consulta''], rows = [[IntV 7, DateV 2024 5 6]]\<rparr>
     ''bus_Position'' None (Some [''fecha_consulta'']) []
   = ([WriteCall ''bus_Position''
        \<lparr>columns = [''VehicleID'', ''fecha_consulta''], rows = [[IntV 7, DateV 2024 5 6]]\<rparr>
        Overwrite (Some [''fecha_consulta''])], None)"
proof -
  let ?B = "\<lparr>columns = [''VehicleID'', ''fecha_consulta''], rows = [[IntV 7, DateV 2024 5 6]]\<rparr>"
  let ?p = "''target.VehicleID = source.VehicleID''"
  let ?pc = "Some [''fecha_consulta'']"
  let ?lib = "scripted (Some TableNotFoundError) None None None"
  let ?lib2 = "scripted None None None None"
  have open_fails: "DeltaTable ?lib [] ''bus_Position'' = Inl TableNotFoundError"
    by (simp add: scripted_def)
  note f = upsert_fallback[where lib = ?lib and st = "[]" and path = "''bus_Position''"
      and B = ?B and p = ?p and pc = ?pc]
  from f open_fails
  have a: "save_new_data_as_delta ?lib ?B ''bus_Position'' ?p ?pc []
           = save_data_as_delta ?lib ?B ''bus_Position'' (Some Overwrite) ?pc []"
    by blast
  from f have b: "save_data_as_delta ?lib ?B ''bus_Position'' (Some Overwrite) ?pc []
           = write_deltalake ?lib [] ''bus_Position'' ?B Overwrite ?pc"
    by blast
  have c: "write_deltalake ?lib [] ''bus_Position'' ?B Overwrite ?pc
           = ([WriteCall ''bus_Position'' ?B Overwrite ?pc], None)"
    by (simp add: scripted_def)
  note g = upsert_fallback[where lib = ?lib2 and st = "[]" and path = "''bus_Position''"
      and B = ?B and p = ?p and pc = ?pc]
  from g have d: "save_data_as_delta ?lib2 ?B ''bus_Position'' None ?pc []
           = write_deltalake ?lib2 [] ''bus_Position'' ?B Overwrite ?pc"
    by metis
  have e: "write_deltalake ?lib2 [] ''bus_Position'' ?B Overwrite ?pc
           = ([WriteCall ''bus_Position'' ?B Overwrite ?pc], None)"
    by (simp add: scripted_def)
  show ?thesis
    using a b c d e by simp
qed

text \<open>
  Claim C5 (error propagation). For every library: \<open>TableNotFoundError\<close> raised in the
  \<open>try\<close> body is recovered by the full write of the new data, made on the storage the
  body left; any other exception of the body escapes the call, with the storage the body
  left and no write made; a body that raises nothing is the whole call. So an exception
  other than \<open>TableNotFoundError\<close> raised by opening the table (a storage failure), by
  the Arrow conversion, or by the merge (a predicate over a missing column, a schema
  mismatch) is what the caller gets, and a table that is not found is written in full.
\<close>

theorem upsert_error_propagation:
  "(\<forall>s. merge_attempt lib B path p st = (s, Some TableNotFoundError) \<longrightarrow>
        save_new_data_as_delta lib B path p pc st = save_data_as_delta lib B path None pc s) \<and>
   (\<forall>s e. merge_attempt lib B path p st = (s, Some e) \<and> e \<noteq> TableNotFoundError \<longrightarrow>
        save_new_data_as_delta lib B path p pc st = (s, Some e)) \<and>
   (\<forall>s. merge_attempt lib B path p st = (s, None) \<longrightarrow>
        save_new_data_as_delta lib B path p pc st = (s, None)) \<and>
   (\<forall>e. DeltaTable lib st path = Inl e \<and> e \<noteq> TableNotFoundError \<longrightarrow>
        save_new_data_as_delta lib B path p pc st = (st, Some e)) \<and>
   (\<forall>dt e. DeltaTable lib st path = Inr dt \<and> from_pandas lib B = Inl e \<and>
        e \<noteq> TableNotFoundError \<longrightarrow>
        save_new_data_as_delta lib B path p pc st = (st, Some e)) \<and>
   (\<forall>dt a s e. DeltaTable lib st path = Inr dt \<and> from_pandas lib B = Inr a \<and>
        merge_insert_all lib st dt a p = (s, Some e) \<and> e \<noteq> TableNotFoundError \<longrightarrow>
        save_new_data_as_delta lib B path p pc st = (s, Some e)) \<and>
   (DeltaTable lib st path = Inl TableNotFoundError \<longrightarrow>
        save_new_data_as_delta lib B path p pc st = write_deltalake lib st path B Overwrite pc)"
proof -
  have recovered: "save_new_data_as_delta lib B path p pc st = save_data_as_delta lib B path None pc s"
    if "merge_attempt lib B path p st = (s, Some TableNotFoundError)" for s
    using that by (simp add: save_new_data_as_delta_def)
  have escapes: "save_new_data_as_delta lib B path p pc st = (s, Some e)"
    if "merge_attempt lib B path p st = (s, Some e)" "e \<noteq> TableNotFoundError" for s e
    using that by (simp add: save_new_data_as_delta_def)
  have returns: "save_new_data_as_delta lib B path p pc st = (s, None)"
    if "merge_attempt lib B path p st = (s, None)" for s
    using that by (simp add: save_new_data_as_delta_def)
  have on_open: "save_new_data_as_delta lib B path p pc st = (st, Some e)"
    if "DeltaTable lib st path = Inl e" "e \<noteq> TableNotFoundError" for e
  proof -
    from that(1) have "merge_attempt lib B path p st = (st, Some e)"
      by (simp add: merge_attempt_def)
    then show ?thesis using that(2) by (rule escapes)
  qed
  have on_convert: "save_new_data_as_delta lib B path p pc st = (st, Some e)"
    if "DeltaTable lib st path = Inr dt" "from_pandas lib B = Inl e" "e \<noteq> TableNotFoundError"
    for dt e
  proof -
    from that(1,2) have "merge_attempt lib B path p st = (st, Some e)"
      by (simp add: merge_attempt_def)
    then show ?thesis using that(3) by (rule escapes)
  qed
  have on_merge: "save_new_data_as_delta lib B path p pc st = (s, Some e)"
    if "DeltaTable lib st path = Inr dt" "from_pandas lib B = Inr a"
      "merge_insert_all lib st dt a p = (s, Some e)" "e \<noteq> TableNotFoundError" for dt a s e
  proof -
    from that(1,2,3) have "merge_attempt lib B path p st = (s, Some e)"
      by (simp add: merge_attempt_def)
    then show ?thesis using that(4) by (rule escapes)
  qed
  have absent: "save_new_data_as_delta lib B path p pc st = write_deltalake lib st path B Overwrite pc"
    if "DeltaTable lib st path = Inl TableNotFoundError"
  proof -
    from that have "merge_attempt lib B path p st = (st, Some TableNotFoundError)"
      by (simp add: merge_attempt_def)
    from recovered[OF this] show ?thesis by (simp add: save_data_as_delta_def)
  qed
  from recovered escapes returns on_open on_convert on_merge absent show ?thesis by blast
qed

text \<open>
  The theorem at a storage failure on opening, a failed conversion, a merge that raises
  (nothing is written after it), and a table that is not found (one write is made).
\<close>

theorem upsert_error_propagation_witness:
  "save_new_data_as_delta (scripted (Some OSError) None None None)
     \<lparr>columns = [''StopID''], rows = [[IntV 1]]\<rparr>
     ''stop_Search'' ''target.StopID = source.StopID'' None []
   = ([], Some OSError) \<and>
   save_new_data_as_delta (scripted None (Some ValueError) None None)
     \<lparr>columns = [''StopID''], rows = [[IntV 1]]\<rparr>
     ''stop_Search'' ''target.StopID = source.StopID'' None []
   = ([], Some ValueError) \<and>
   save_new_data_as_delta (scripted None None (Some DeltaError) None)
     \<lparr>columns = [''StopID''], rows = [[IntV 1]]\<rparr>
     ''stop_Search'' ''target.Stop = source.StopID'' None []
   = ([MergeCall \<lparr>columns = [''StopID''], rows = [[IntV 1]]\<rparr> ''target.Stop = source.StopID''],
      Some DeltaError) \<and>
   save_new_data_as_delta (scripted (Some TableNotFoundError) None None None)
     \<lparr>columns = [''StopID''], rows = [[IntV 1]]\<rparr>
     ''stop_Search'' ''target.StopID = source.StopID'' None []
   = ([WriteCall ''stop_Search'' \<lparr>columns = [''StopID''], rows = [[IntV 1]]\<rparr> Overwrite None],
      None)"
proof -
  let ?B = "\<lparr>columns = [''StopID''], rows = [[IntV 1]]\<rparr>"
  let ?p = "''target.StopID = source.StopID''"
  let ?q = "''target.Stop = source.StopID''"
  let ?io = "scripted (Some OSError) None None None"
  let ?conv = "scripted None (Some ValueError) None None"
  let ?mrg = "scripted None None (Some DeltaError) None"
  let ?nf = "scripted (Some TableNotFoundError) None None None"
  have 1: "save_new_data_as_delta ?io ?B ''stop_Search'' ?p None [] = ([], Some OSError)"
  proof -
    have "DeltaTable ?io [] ''stop_Search'' = Inl OSError \<and> OSError \<noteq> TableNotFoundError"
      by (simp add: scripted_def)
    with upsert_error_propagation[where lib = ?io and st = "[]" and path = "''stop_Search''"
        and B = ?B and p = ?p and pc = None]
    show ?thesis by blast
  qed
  have 2: "save_new_data_as_delta ?conv ?B ''stop_Search'' ?p None [] = ([], Some ValueError)"
  proof -
    have "DeltaTable ?conv [] ''stop_Search'' = Inr () \<and> from_pandas ?conv ?B = Inl ValueError
          \<and> ValueError \<noteq> TableNotFoundError"
      by (simp add: scripted_def)
    with upsert_error_propagation[where lib = ?conv and st = "[]" and path = "''stop_Search''"
        and B = ?B and p = ?p and pc = None]
    show ?thesis by blast
  qed
  have 3: "save_new_data_as_delta ?mrg ?B ''stop_Search'' ?q None []
           = ([MergeCall ?B ?q], Some DeltaError)"
  proof -
    have "DeltaTable ?mrg [] ''stop_Search'' = Inr () \<and> from_pandas ?mrg ?B = Inr ?B
          \<and> merge_insert_all ?mrg [] () ?B ?q = ([MergeCall ?B ?q], Some DeltaError)
          \<and> DeltaError \<noteq> TableNotFoundError"
      by (simp add: scripted_def)
    with upsert_error_propagation[where lib = ?mrg and st = "[]" and path = "''stop_Search''"
        and B = ?B and p = ?q and pc = None]
    show ?thesis by blast
  qed
  have 4: "save_new_data_as_delta ?nf ?B ''stop_Search'' ?p None []
           = ([WriteCall ''stop_Search'' ?B Overwrite None], None)"
  proof -
    have o: "DeltaTable ?nf [] ''stop_Search'' = Inl TableNotFoundError"
      by (simp add: scripted_def)
    have w: "write_deltalake ?nf [] ''stop_Search'' ?B Overwrite None
             = ([WriteCall ''stop_Search'' ?B Overwrite None], None)"
      by (simp add: scripted_def)
    from upsert_error_propagation[where lib = ?nf and st = "[]" and path = "''stop_Search''"
        and B = ?B and p = ?p and pc = None] o
    have "save_new_data_as_delta ?nf ?B ''stop_Search'' ?p None []
          = write_deltalake ?nf [] ''stop_Search'' ?B Overwrite None"
      by blast
    with w show ?thesis by simp
  qed
  from 1 2 3 4 show ?thesis by blast
qed

section \<open>Claims about \<open>get_data\<close>\<close>

lemma get_data_responded:
  "rg (base_url @ ''/'' @ endpoint) params headers = Responded r \<Longrightarrow>
   get_data rg base_url endpoint data_field params headers =
     (if 400 \<le> status_code r \<and> status_code r < 600 then Inr ([RequestFailed], JNull)
      else case body r of
             None \<Rightarrow> Inr ([UnexpectedFormat], JNull)
           | Some j \<Rightarrow> (case json_getitem j data_field of
                          Inl e \<Rightarrow> Inr ([UnexpectedFormat], JNull)
                        | Inr v \<Rightarrow> Inr ([], v)))"
  by (simp add: get_data_def raise_for_status_def response_json_def is_request_exception_def
      split: option.splits sum.splits)

text \<open>
  Claim C8 (fetch failures yield an absent result), as the code has it. A request
  exception raised by the request prints the request-failed message and returns
  \<open>None\<close>. When the request is answered: a status from 400 to 599 does the same;
  otherwise a body that is not JSON, or JSON that cannot be indexed by the field name
  (not an object, or an object without the field), prints the unexpected-format message
  and returns \<open>None\<close>; otherwise, whatever the status, the value under the field is
  returned and nothing is printed; and in every case the call returns, raising nothing.
\<close>

theorem get_data_failures_absent:
  "(\<forall>e. rg (base_url @ ''/'' @ endpoint) params headers = Raised e \<and> is_request_exception e \<longrightarrow>
        get_data rg base_url endpoint data_field params headers = Inr ([RequestFailed], JNull)) \<and>
   (\<forall>r. rg (base_url @ ''/'' @ endpoint) params headers = Responded r \<longrightarrow>
      (400 \<le> status_code r \<and> status_code r < 600 \<longrightarrow>
         get_data rg base_url endpoint data_field params headers = Inr ([RequestFailed], JNull)) \<and>
      (\<not> (400 \<le> status_code r \<and> status_code r < 600) \<and> body r = None \<longrightarrow>
         get_data rg base_url endpoint data_field params headers = Inr ([UnexpectedFormat], JNull)) \<and>
      (\<forall>j e. \<not> (400 \<le> status_code r \<and> status_code r < 600) \<and> body r = Some j \<and>
             json_getitem j data_field = Inl e \<longrightarrow>
         get_data rg base_url endpoint data_field params headers = Inr ([UnexpectedFormat], JNull)) \<and>
      (\<forall>j v. \<not> (400 \<le> status_code r \<and> status_code r < 600) \<and> body r = Some j \<and>
             json_getitem j data_field = Inr v \<longrightarrow>
         get_data rg base_url endpoint data_field params headers = Inr ([], v)) \<and>
      (\<exists>out v. get_data rg base_url endpoint data_field params headers = Inr (out, v)))"
proof -
  have raised: "get_data rg base_url endpoint data_field params headers = Inr ([RequestFailed], JNull)"
    if "rg (base_url @ ''/'' @ endpoint) params headers = Raised e" "is_request_exception e" for e
    using that by (simp add: get_data_def)
  have resp: "(400 \<le> status_code r \<and> status_code r < 600 \<longrightarrow>
         get_data rg base_url endpoint data_field params headers = Inr ([RequestFailed], JNull)) \<and>
      (\<not> (400 \<le> status_code r \<and> status_code r < 600) \<and> body r = None \<longrightarrow>
         get_data rg base_url endpoint data_field params headers = Inr ([UnexpectedFormat], JNull)) \<and>
      (\<forall>j e. \<not> (400 \<le> status_code r \<and> status_code r < 600) \<and> body r = Some j \<and>
             json_getitem j data_field = Inl e \<longrightarrow>
         get_data rg base_url endpoint data_field params headers = Inr ([UnexpectedFormat], JNull)) \<and>
      (\<forall>j v. \<not> (400 \<le> status_code r \<and> status_code r < 600) \<and> body r = Some j \<and>
             json_getitem j data_field = Inr v \<longrightarrow>
         get_data rg base_url endpoint data_field params headers = Inr ([], v)) \<and>
      (\<exists>out v. get_data rg base_url endpoint data_field params headers = Inr (out, v))"
    if r: "rg (base_url @ ''/'' @ endpoint) params headers = Responded r" for r
    using get_data_responded[of rg base_url endpoint params headers r data_field] r
    by (auto split: option.splits sum.splits)
  from raised resp show ?thesis by blast
qed

text \<open>
  The theorem at a 404 answer, a 200 answer without JSON, a 200 answer whose object
  lacks the field, and a 200 answer that holds it.
\<close>

theorem get_data_failures_absent_witness:
  "get_data (always_responds \<lparr>status_code = 404, body = None\<rparr>)
     ''http://api.wmata.com/Bus.svc/json'' ''jStops'' ''Stops'' None None
   = Inr ([RequestFailed], JNull) \<and>
   get_data (always_responds \<lparr>status_code = 200, body = None\<rparr>)
     ''http://api.wmata.com/Bus.svc/json'' ''jStops'' ''Stops'' None None
   = Inr ([UnexpectedFormat], JNull) \<and>
   get_data (always_responds \<lparr>status_code = 200, body = Some (JObj [(''Message'', JStr ''x'')])\<rparr>)
     ''http://api.wmata.com/Bus.svc/json'' ''jStops'' ''Stops'' None None
   = Inr ([UnexpectedFormat], JNull) \<and>
   get_data (always_responds \<lparr>status_code = 200, body = Some (JObj [(''Stops'', JArr [])])\<rparr>)
     ''http://api.wmata.com/Bus.svc/json'' ''jStops'' ''Stops'' None None
   = Inr ([], JArr [])"
proof -
  let ?u = "''http://api.wmata.com/Bus.svc/json''"
  let ?r1 = "\<lparr>status_code = 404, body = None\<rparr>"
  let ?r2 = "\<lparr>status_code = 200, body = None\<rparr>"
  let ?r3 = "\<lparr>status_code = 200, body = Some (JObj [(''Message'', JStr ''x'')])\<rparr>"
  let ?r4 = "\<lparr>status_code = 200, body = Some (JObj [(''Stops'', JArr [])])\<rparr>"
  have a: "always_responds r (?u @ ''/'' @ ''jStops'') None None = Responded r" for r
    by (simp add: always_responds_def)
  have 1: "get_data (always_responds ?r1) ?u ''jStops'' ''Stops'' None None
           = Inr ([RequestFailed], JNull)"
    using get_data_failures_absent[where rg = "always_responds ?r1" and base_url = ?u
        and endpoint = "''jStops''" and params = None and headers = None
        and data_field = "''Stops''"] a[of ?r1]
    by simp
  have 2: "get_data (always_responds ?r2) ?u ''jStops'' ''Stops'' None None
           = Inr ([UnexpectedFormat], JNull)"
    using get_data_failures_absent[where rg = "always_responds ?r2" and base_url = ?u
        and endpoint = "''jStops''" and params = None and headers = None
        and data_field = "''Stops''"] a[of ?r2]
    by simp
  have 3: "get_data (always_responds ?r3) ?u ''jStops'' ''Stops'' None None
           = Inr ([UnexpectedFormat], JNull)"
    using get_data_failures_absent[where rg = "always_responds ?r3" and base_url = ?u
        and endpoint = "''jStops''" and params = None and headers = None
        and data_field = "''Stops''"] a[of ?r3]
    by (simp add: json_getitem_def)
  have 4: "get_data (always_responds ?r4) ?u ''jStops'' ''Stops'' None None = Inr ([], JArr [])"
    using get_data_failures_absent[where rg = "always_responds ?r4" and base_url = ?u
        and endpoint = "''jStops''" and params = None and headers = None
        and data_field = "''Stops''"] a[of ?r4]
    by (simp add: json_getitem_def)
  show ?thesis using 1 2 3 4 by simp
qed

text \<open>
  The claim as worded lets every status outside 200 to 299 yield \<open>None\<close>. Only 400 to
  599 raise: an answer with status 300 and a JSON body holding the field is returned as
  data, and nothing is printed.
\<close>

theorem get_data_failures_absent_counterexample:
  "get_data (always_responds \<lparr>status_code = 300,
                               body = Some (JObj [(''Stops'', JArr [JObj [(''StopID'', JStr ''1001'')]])])\<rparr>)
     ''http://api.wmata.com/Bus.svc/json'' ''jStops'' ''Stops'' None None
   = Inr ([], JArr [JObj [(''StopID'', JStr ''1001'')]]) \<and>
   JArr [JObj [(''StopID'', JStr ''1001'')]] \<noteq> JNull"
  by (simp add: get_data_def always_responds_def raise_for_status_def response_json_def
      json_getitem_def)

section \<open>Claims about \<open>build_table_incremental\<close>\<close>

lemma distinct_DataFrame: "distinct (columns (DataFrame recs))"
  by (simp add: DataFrame_def Let_def)

lemma wf_DataFrame: "wf_frame (DataFrame recs)"
  by (simp add: DataFrame_def Let_def wf_frame_def list_all_iff)

lemma cell_at_snoc_new:
  "length r = length cols \<Longrightarrow> c \<notin> set cols \<Longrightarrow> cell_at (cols @ [c]) (r @ [v]) c = v"
proof -
  assume a: "length r = length cols" "c \<notin> set cols"
  then have n: "map_of (zip cols r) c = None"
    by (auto simp: map_of_eq_None_iff dest: set_zip_leftD)
  show ?thesis using a(1) by (simp add: cell_at_def map_add_def n)
qed

lemma cell_at_snoc_old:
  "length r = length cols \<Longrightarrow> c' \<in> set cols \<Longrightarrow>
   cell_at (cols @ [c]) (r @ [v]) c' = cell_at cols r c'"
proof -
  assume a: "length r = length cols" "c' \<in> set cols"
  then obtain w where "map_of (zip cols r) c' = Some w"
    by (metis map_of_zip_is_Some not_Some_eq)
  with a show ?thesis by (simp add: cell_at_def map_add_def)
qed

lemma setitem_scalar_props:
  assumes "distinct (columns df)" "wf_frame df"
  shows "distinct (columns (setitem_scalar df c v))"
    and "wf_frame (setitem_scalar df c v)"
    and "c \<in> set (columns (setitem_scalar df c v))"
    and "length (rows (setitem_scalar df c v)) = length (rows df)"
    and "\<forall>r \<in> set (rows (setitem_scalar df c v)). cell_at (columns (setitem_scalar df c v)) r c = v"
    and "c' \<in> set (columns df) \<Longrightarrow> c' \<noteq> c \<Longrightarrow>
         \<forall>r \<in> set (rows df). cell_at (columns df) r c' = w \<Longrightarrow>
         \<forall>r \<in> set (rows (setitem_scalar df c v)). cell_at (columns (setitem_scalar df c v)) r c' = w"
proof -
  have len: "length r = length (columns df)" if "r \<in> set (rows df)" for r
    using that assms(2) by (simp add: wf_frame_def list_all_iff)
  show "distinct (columns (setitem_scalar df c v))"
    using assms(1) by (simp add: setitem_scalar_def)
  show "wf_frame (setitem_scalar df c v)"
    using len by (auto simp: setitem_scalar_def wf_frame_def list_all_iff set_cell_def)
  show "c \<in> set (columns (setitem_scalar df c v))"
    by (simp add: setitem_scalar_def)
  show "length (rows (setitem_scalar df c v)) = length (rows df)"
    by (simp add: setitem_scalar_def)
  show "\<forall>r \<in> set (rows (setitem_scalar df c v)). cell_at (columns (setitem_scalar df c v)) r c = v"
  proof (cases "c \<in> set (columns df)")
    case True
    have "cell_at (columns df) (set_cell (columns df) r c v) c = v" if "r \<in> set (rows df)" for r
      using len[OF that] assms(1) True
      by (simp add: set_cell_update cell_at_nth col_index_less)
    with True show ?thesis by (auto simp: setitem_scalar_def)
  next
    case False
    with len show ?thesis by (auto simp: setitem_scalar_def cell_at_snoc_new)
  qed
  show "\<forall>r \<in> set (rows (setitem_scalar df c v)). cell_at (columns (setitem_scalar df c v)) r c' = w"
    if c': "c' \<in> set (columns df)" "c' \<noteq> c" and w: "\<forall>r \<in> set (rows df). cell_at (columns df) r c' = w"
  proof (cases "c \<in> set (columns df)")
    case True
    have ne: "col_index (columns df) c \<noteq> col_index (columns df) c'"
      using True c' col_index_inj by blast
    have "cell_at (columns df) (set_cell (columns df) r c v) c' = cell_at (columns df) r c'"
      if "r \<in> set (rows df)" for r
      using len[OF that] assms(1) c' ne by (simp add: set_cell_update cell_at_nth)
    with True w show ?thesis by (auto simp: setitem_scalar_def)
  next
    case False
    with len c' w show ?thesis by (auto simp: setitem_scalar_def cell_at_snoc_old)
  qed
qed

lemma is_digit_digit_char: "is_digit (digit_char n)"
proof -
  have "n mod 10 < length ''0123456789''" by simp
  then have "''0123456789'' ! (n mod 10) \<in> set ''0123456789''" by (rule nth_mem)
  then show ?thesis by (simp only: is_digit_def digit_char_def)
qed

text \<open>
  Claim C10 (batch-uniform extraction stamp). The call reads the clock once; the frame
  has one row per record; every row holds the date of that reading under
  \<open>fecha_consulta\<close> and its time under \<open>hora_consulta\<close>; and the time is written as
  two digits of the hour, a colon, two digits of the minute, a colon and two digits of
  the second.
\<close>

theorem build_table_incremental_stamp:
  assumes "build_table_incremental readings k json_data = (df, k')"
  shows "k' = Suc k \<and>
         length (rows df) = length json_data \<and>
         (\<forall>r \<in> set (rows df).
            cell_at (columns df) r ''fecha_consulta'' =
              DateV (year (readings k)) (month (readings k)) (day (readings k)) \<and>
            cell_at (columns df) r ''hora_consulta'' = StrV (strftime_HMS (readings k))) \<and>
         strftime_HMS (readings k) =
           [digit_char (hour (readings k) div 10), digit_char (hour (readings k)), CHR '':'',
            digit_char (minute (readings k) div 10), digit_char (minute (readings k)), CHR '':'',
            digit_char (second (readings k) div 10), digit_char (second (readings k))] \<and>
         list_all is_digit (filter (\<lambda>ch. ch \<noteq> CHR '':'') (strftime_HMS (readings k)))"
proof -
  let ?t = "readings k"
  let ?d = "DateV (year ?t) (month ?t) (day ?t)"
  let ?D0 = "DataFrame json_data"
  let ?D1 = "setitem_scalar ?D0 ''fecha_consulta'' ?d"
  let ?D2 = "setitem_scalar ?D1 ''hora_consulta'' (StrV (strftime_HMS ?t))"
  from assms have df: "df = ?D2" and k': "k' = Suc k"
    by (simp_all add: build_table_incremental_def datetime_now_def Let_def)
  note p0 = distinct_DataFrame[of json_data] wf_DataFrame[of json_data]
  note p1 = setitem_scalar_props[OF p0, where c = "''fecha_consulta''" and v = ?d]
  note p2 = setitem_scalar_props[OF p1(1,2), where c = "''hora_consulta''"
      and v = "StrV (strftime_HMS ?t)"]
  have len: "length (rows df) = length json_data"
    unfolding df using p1(4) p2(4) by (simp add: DataFrame_def Let_def)
  have hora: "\<forall>r \<in> set (rows df). cell_at (columns df) r ''hora_consulta'' = StrV (strftime_HMS ?t)"
    unfolding df by (rule p2(5))
  have fecha: "\<forall>r \<in> set (rows df). cell_at (columns df) r ''fecha_consulta'' = ?d"
    unfolding df by (rule p2(6)[OF p1(3) _ p1(5)]) simp
  have fmt: "strftime_HMS ?t =
           [digit_char (hour ?t div 10), digit_char (hour ?t), CHR '':'',
            digit_char (minute ?t div 10), digit_char (minute ?t), CHR '':'',
            digit_char (second ?t div 10), digit_char (second ?t)]"
    by (simp add: strftime_HMS_def pad2_def)
  have colon: "\<not> is_digit CHR '':''" by (simp add: is_digit_def)
  have ne: "digit_char n \<noteq> CHR '':''" for n
    using is_digit_digit_char[of n] colon by metis
  have digs: "list_all is_digit (filter (\<lambda>ch. ch \<noteq> CHR '':'') (strftime_HMS ?t))"
    unfolding fmt by (simp add: is_digit_digit_char ne)
  show ?thesis using k' len hora fecha fmt digs by blast
qed

text \<open>
  The theorem at two vehicle records read at 09:05:30 on 2024-05-06.
\<close>

theorem build_table_incremental_stamp_witness:
  "build_table_incremental
     (fixed_clock \<lparr>year = 2024, month = 5, day = 6, hour = 9, minute = 5, second = 30\<rparr>) 0
     [[(''VehicleID'', IntV 7)], [(''VehicleID'', IntV 8)]]
   = (\<lparr>columns = [''VehicleID'', ''fecha_consulta'', ''hora_consulta''],
       rows = [[IntV 7, DateV 2024 5 6, StrV ''09:05:30''],
               [IntV 8, DateV 2024 5 6, StrV ''09:05:30'']]\<rparr>, 1) \<and>
   strftime_HMS \<lparr>year = 2024, month = 5, day = 6, hour = 9, minute = 5, second = 30\<rparr> = ''09:05:30''"
proof -
  let ?t = "\<lparr>year = 2024, month = 5, day = 6, hour = 9, minute = 5, second = 30\<rparr>"
  let ?df = "\<lparr>columns = [''VehicleID'', ''fecha_consulta'', ''hora_consulta''],
       rows = [[IntV 7, DateV 2024 5 6, StrV ''09:05:30''],
               [IntV 8, DateV 2024 5 6, StrV ''09:05:30'']]\<rparr>"
  have s: "strftime_HMS ?t = ''09:05:30''"
    by (simp add: strftime_HMS_def pad2_def digit_char_def)
  have run: "build_table_incremental (fixed_clock ?t) 0
               [[(''VehicleID'', IntV 7)], [(''VehicleID'', IntV 8)]] = (?df, 1)"
    by (simp add: build_table_incremental_def DataFrame_def setitem_scalar_def datetime_now_def
        fixed_clock_def Let_def s)
  from build_table_incremental_stamp[OF run]
  have "strftime_HMS (fixed_clock ?t 0) =
           [digit_char (hour (fixed_clock ?t 0) div 10), digit_char (hour (fixed_clock ?t 0)), CHR '':'',
            digit_char (minute (fixed_clock ?t 0) div 10), digit_char (minute (fixed_clock ?t 0)), CHR '':'',
            digit_char (second (fixed_clock ?t 0) div 10), digit_char (second (fixed_clock ?t 0))]"
    by blast
  then have "strftime_HMS ?t = ''09:05:30''"
    by (simp add: fixed_clock_def digit_char_def)
  with run show ?thesis by simp
qed

end
